theory Spec2Isabelle
  imports Complex_Main "HOL-Library.Word"
begin

section \<open>Emulation speed throttling (src/drivers/Qt/sdl-throttle.cpp)\<close>

text \<open>
  The file keeps its state in file-scope variables and talks to three collaborators: the
  emulation core (\<open>FCEUI_GetDesiredFPS\<close>), the display layer (\<open>FCEU_DispMessage\<close>) and SDL's
  clock and sleep (\<open>SDL_GetTicks\<close>, \<open>SDL_Delay\<close>). The model passes the variables around
  as a record and makes every call to a collaborator visible in that record.

  Numbers. \<open>uint64\<close> values are 64-bit words. C \<open>double\<close> values are modelled as real
  numbers. The steps of the scale factor, \<open>g_fpsScale *= LOGMUL\<close> and
  \<open>g_fpsScale /= LOGMUL\<close>, round their result to binary64 (\<open>binary64\<close> below), and
  \<open>LOGMUL\<close> is the double that the literal denotes: what repeated steps arrive at depends
  on that rounding. The other double operations (the budget, the deadline, the percentage
  quotient, the value formatted for the notification) are computed exactly, and no
  statement about them asserts a numeric tolerance.
  The one place where the program can leave the real numbers is the quotient
  \<open>1.0 / (hz * g_fpsScale)\<close> with a zero divisor, which IEEE arithmetic answers with an
  infinity or a NaN; the type \<open>dbl\<close> keeps that case apart instead of inheriting the
  value \<open>0\<close> that division by zero has in HOL.
\<close>

type_synonym uint64 = "64 word"
type_synonym int32 = "32 word"

datatype dbl = Finite real | NonFinite

definition dbl_div :: "real \<Rightarrow> real \<Rightarrow> dbl" where
  \<comment> \<open>\<open>x / y\<close> on doubles: an infinity or NaN when the divisor is zero.\<close>
  "dbl_div x y = (if y = 0 then NonFinite else Finite (x / y))"

definition dbl_times :: "dbl \<Rightarrow> real \<Rightarrow> dbl" where
  \<comment> \<open>\<open>d * c\<close> for a finite constant \<open>c\<close>; used with \<open>c = 1000\<close> only.\<close>
  "dbl_times d c = (case d of Finite x \<Rightarrow> Finite (x * c) | NonFinite \<Rightarrow> NonFinite)"

definition dbl_plus :: "real \<Rightarrow> dbl \<Rightarrow> dbl" where
  "dbl_plus a d = (case d of Finite x \<Rightarrow> Finite (a + x) | NonFinite \<Rightarrow> NonFinite)"

definition c_trunc :: "real \<Rightarrow> int" where
  \<comment> \<open>C's conversion to an integer type discards the fractional part.\<close>
  "c_trunc x = (if 0 \<le> x then \<lfloor>x\<rfloor> else \<lceil>x\<rceil>)"

definition double_to_int32 :: "dbl \<Rightarrow> int option" where
  \<comment> \<open>\<open>(int32_t) d\<close>: undefined in C (here \<open>None\<close>) when the integral part does not fit.\<close>
  "double_to_int32 d =
     (case d of
        Finite x \<Rightarrow>
          if - (2 ^ 31) \<le> c_trunc x \<and> c_trunc x < 2 ^ 31 then Some (c_trunc x) else None
      | NonFinite \<Rightarrow> None)"

definition double_to_uint64 :: "(dbl \<Rightarrow> uint64) \<Rightarrow> dbl \<Rightarrow> uint64" where
  \<comment> \<open>The implicit conversion in \<open>Nexttime = Lasttime + desired_frametime * 1000\<close>. C leaves
      it undefined when the integral part is not a \<open>uint64\<close>; what the platform then
      produces is the parameter \<open>oor\<close>.\<close>
  "double_to_uint64 oor d =
     (case d of
        Finite x \<Rightarrow>
          if 0 \<le> c_trunc x \<and> c_trunc x < 2 ^ 64 then word_of_int (c_trunc x) else oor d
      | NonFinite \<Rightarrow> oor d)"

definition uint64_to_double :: "uint64 \<Rightarrow> real" where
  "uint64_to_double w = real (unat w)"

subsection \<open>Rounding to binary64\<close>

text \<open>
  Round to nearest, ties to even, with 53 significant bits: a positive number is scaled
  by powers of two into \<open>[1, 2)\<close>, rounded there to 52 fraction bits and scaled back. The
  scaling takes at most 1075 steps for every magnitude from \<open>2^-1075\<close> up to \<open>2^1076\<close>,
  which covers the whole range of binary64. The exponent range itself is not modelled
  (no overflow to infinity, no loss of precision among subnormals); scale factors between
  \<open>Slowest\<close> and \<open>Fastest\<close> and their steps are far inside the normal range.
\<close>

definition round_even :: "real \<Rightarrow> int" where
  \<comment> \<open>The integer nearest to \<open>q\<close>; of two equally near ones, the even one.\<close>
  "round_even q =
     (let n = \<lfloor>q\<rfloor>; f = q - of_int n
      in if f < 1 / 2 then n else if 1 / 2 < f then n + 1 else if even n then n else n + 1)"

definition round_significand :: "real \<Rightarrow> real" where
  \<comment> \<open>For \<open>1 \<le> x < 2\<close>: the nearest multiple of \<open>2^-52\<close>.\<close>
  "round_significand x = of_int (round_even (x * 2 ^ 52)) / 2 ^ 52"

fun binary64_scaled :: "nat \<Rightarrow> real \<Rightarrow> real" where
  "binary64_scaled 0 x = round_significand x"
| "binary64_scaled (Suc n) x =
     (if 2 \<le> x then 2 * binary64_scaled n (x / 2)
      else if x < 1 then binary64_scaled n (2 * x) / 2
      else round_significand x)"

definition binary64 :: "real \<Rightarrow> real" where
  "binary64 x =
     (if x = 0 then 0
      else if 0 < x then binary64_scaled 1075 x
      else - binary64_scaled 1075 (- x))"

subsection \<open>Constants\<close>

definition Slowest :: real where
  "Slowest = 0.015625"

definition Fastest :: real where
  "Fastest = 32"

definition Normal :: real where
  "Normal = 1.0"

definition LOGMUL :: real where
  \<comment> \<open>\<open>#define LOGMUL 1.259921049894873\<close>: the literal is read as the nearest double.\<close>
  "LOGMUL = binary64 1.259921049894873"

subsection \<open>State and collaborators\<close>

text \<open>
  \<open>platform\<close> is what the collaborators answer: the \<open>k\<close>-th call of
  \<open>FCEUI_GetDesiredFPS\<close> returns \<open>fps_at k\<close>, the \<open>k\<close>-th call of \<open>SDL_GetTicks\<close> returns
  \<open>ticks_at k\<close> (any sequence of readings, so nothing is assumed about how long a sleep
  really lasts), and \<open>oor_uint64\<close> is the platform's result for an out-of-range conversion.
\<close>

record platform =
  fps_at :: "nat \<Rightarrow> int32"
  ticks_at :: "nat \<Rightarrow> uint64"
  oor_uint64 :: "dbl \<Rightarrow> uint64"

text \<open>
  The first six fields are the file's variables. The last four record the calls made to
  the collaborators: how many times the frame rate and the clock were read, the durations
  handed to \<open>SDL_Delay\<close> and the values handed to \<open>FCEU_DispMessage\<close>, oldest first.
\<close>

record throttle =
  Lasttime :: uint64
  Nexttime :: uint64
  desired_frametime :: dbl
  InFrame :: int
  g_fpsScale :: real
  MaxSpeed :: bool
  fps_queries :: nat
  tick_reads :: nat
  delays :: "uint64 list"
  messages :: "real list"

definition initial :: throttle where
  \<comment> \<open>The initialisers of the file-scope variables; nothing has been called yet.\<close>
  "initial =
     \<lparr>Lasttime = 0, Nexttime = 0, desired_frametime = dbl_div 1.0 60.099823, InFrame = 0,
      g_fpsScale = Normal, MaxSpeed = False,
      fps_queries = 0, tick_reads = 0, delays = [], messages = []\<rparr>"

definition FCEUI_GetDesiredFPS :: "platform \<Rightarrow> throttle \<Rightarrow> int32 \<times> throttle" where
  \<comment> \<open>Modelled from the spec: the emulation core's query is not in the sources; it returns
      the native frame rate as a fixed-point integer (Hz times \<open>2^24\<close>).\<close>
  "FCEUI_GetDesiredFPS e s = (fps_at e (fps_queries s), s\<lparr>fps_queries := Suc (fps_queries s)\<rparr>)"

definition SDL_GetTicks :: "platform \<Rightarrow> throttle \<Rightarrow> uint64 \<times> throttle" where
  \<comment> \<open>Modelled from the spec: the monotonic millisecond clock, an external primitive.\<close>
  "SDL_GetTicks e s = (ticks_at e (tick_reads s), s\<lparr>tick_reads := Suc (tick_reads s)\<rparr>)"

definition SDL_Delay :: "uint64 \<Rightarrow> throttle \<Rightarrow> throttle" where
  \<comment> \<open>Modelled from the spec: the blocking sleep, an external primitive; the call is logged.\<close>
  "SDL_Delay ms s = s\<lparr>delays := delays s @ [ms]\<rparr>"

definition FCEU_DispMessage :: "real \<Rightarrow> throttle \<Rightarrow> throttle" where
  \<comment> \<open>Modelled from the spec: the display layer's notification \<open>"Emulation speed %.1f%%"\<close>;
      the call is logged with the value it formats.\<close>
  "FCEU_DispMessage x s = s\<lparr>messages := messages s @ [x]\<rparr>"

subsection \<open>RefreshThrottleFPS\<close>

definition RefreshThrottleFPS :: "platform \<Rightarrow> throttle \<Rightarrow> throttle" where
  \<comment> \<open>The local \<open>T\<close> is computed and never read; see \<open>RefreshThrottleFPS_T\<close>.\<close>
  "RefreshThrottleFPS e s =
     (let (fps, s1) = FCEUI_GetDesiredFPS e s;
          hz = real_of_int (sint fps) / 16777216.0
      in s1\<lparr>desired_frametime := dbl_div 1.0 (hz * g_fpsScale s1),
             Lasttime := 0, Nexttime := 0, InFrame := 0\<rparr>)"

definition RefreshThrottleFPS_T :: "platform \<Rightarrow> throttle \<Rightarrow> int option" where
  \<comment> \<open>The value of the local \<open>T\<close> when the function returns: the truncated millisecond
      count, replaced by 1 when negative.\<close>
  "RefreshThrottleFPS_T e s =
     (let (fps, s1) = FCEUI_GetDesiredFPS e s;
          hz = real_of_int (sint fps) / 16777216.0;
          frametime = dbl_div 1.0 (hz * g_fpsScale s1)
      in case double_to_int32 (dbl_times frametime 1000.0) of
           None \<Rightarrow> None
         | Some T \<Rightarrow> Some (if T < 0 then 1 else T))"

subsection \<open>SpeedThrottle\<close>

definition SpeedThrottle :: "platform \<Rightarrow> throttle \<Rightarrow> int \<times> throttle" where
  "SpeedThrottle e s =
     (if g_fpsScale s \<ge> 32 then (0, s)
      else
        let s1 = (if Lasttime s = 0
                  then (let (t, s') = SDL_GetTicks e s in s'\<lparr>Lasttime := t\<rparr>)
                  else s);
            s2 = (if InFrame s1 = 0
                  then s1\<lparr>InFrame := 1,
                          Nexttime := double_to_uint64 (oor_uint64 e)
                            (dbl_plus (uint64_to_double (Lasttime s1))
                               (dbl_times (desired_frametime s1) 1000))\<rparr>
                  else s1);
            (cur_time, s3) = SDL_GetTicks e s2;
            time_left = (if cur_time \<ge> Nexttime s3 then 0 else Nexttime s3 - cur_time);
            (time_left', s4) = (if time_left > 50 then (50, s3)
                                else (time_left, s3\<lparr>InFrame := 0\<rparr>));
            s5 = (if time_left' > 0 then SDL_Delay time_left' s4 else s4)
        in if InFrame s5 = 0
           then (let (t, s6) = SDL_GetTicks e s5 in (0, s6\<lparr>Lasttime := t\<rparr>))
           else (1, s5))"

definition deadline :: "platform \<Rightarrow> throttle \<Rightarrow> uint64" where
  \<comment> \<open>The value of \<open>Nexttime\<close> against which a throttled call compares the clock: lines
      65 to 74 of the source, with the wait of the frame started if it was not.\<close>
  "deadline e s =
     (let last = (if Lasttime s = 0 then ticks_at e (tick_reads s) else Lasttime s)
      in if InFrame s = 0
         then double_to_uint64 (oor_uint64 e)
                (dbl_plus (uint64_to_double last) (dbl_times (desired_frametime s) 1000))
         else Nexttime s)"

definition cur_time_of :: "platform \<Rightarrow> throttle \<Rightarrow> uint64" where
  \<comment> \<open>The clock reading assigned to \<open>cur_time\<close> (line 76).\<close>
  "cur_time_of e s =
     ticks_at e (if Lasttime s = 0 then Suc (tick_reads s) else tick_reads s)"

definition remaining :: "platform \<Rightarrow> throttle \<Rightarrow> uint64" where
  \<comment> \<open>\<open>time_left\<close> as lines 77 to 80 compute it, before the cap.\<close>
  "remaining e s =
     (if cur_time_of e s \<ge> deadline e s then 0 else deadline e s - cur_time_of e s)"

subsection \<open>Speed adjustment\<close>

definition IncreaseEmulationSpeed :: "platform \<Rightarrow> throttle \<Rightarrow> throttle" where
  "IncreaseEmulationSpeed e s =
     (let s1 = s\<lparr>g_fpsScale := binary64 (g_fpsScale s * LOGMUL)\<rparr>;
          s2 = (if g_fpsScale s1 > Fastest then s1\<lparr>g_fpsScale := Fastest\<rparr> else s1);
          s3 = RefreshThrottleFPS e s2
      in FCEU_DispMessage (g_fpsScale s3 * 100.0) s3)"

definition DecreaseEmulationSpeed :: "platform \<Rightarrow> throttle \<Rightarrow> throttle" where
  "DecreaseEmulationSpeed e s =
     (let s1 = s\<lparr>g_fpsScale := binary64 (g_fpsScale s / LOGMUL)\<rparr>;
          s2 = (if g_fpsScale s1 < Slowest then s1\<lparr>g_fpsScale := Slowest\<rparr> else s1);
          s3 = RefreshThrottleFPS e s2
      in FCEU_DispMessage (g_fpsScale s3 * 100.0) s3)"

definition CustomEmulationSpeed :: "platform \<Rightarrow> int \<Rightarrow> throttle \<Rightarrow> int \<times> throttle" where
  "CustomEmulationSpeed e spdPercent s =
     (if spdPercent < 1 then (- 1, s)
      else
        let s1 = s\<lparr>g_fpsScale := real_of_int spdPercent / 100.0\<rparr>;
            s2 = (if g_fpsScale s1 < Slowest then s1\<lparr>g_fpsScale := Slowest\<rparr>
                  else if g_fpsScale s1 > Fastest then s1\<lparr>g_fpsScale := Fastest\<rparr>
                  else s1);
            s3 = RefreshThrottleFPS e s2
        in (0, FCEU_DispMessage (g_fpsScale s3 * 100.0) s3))"

text \<open>
  Modelled from the spec: the \<open>EMUSPEED_*\<close> constants are declared in a header that is not
  in the sources. The command is the \<open>int\<close> argument as the \<open>switch\<close> sees it: one of the
  five case labels, or any other value.
\<close>

datatype emuspeed =
    EMUSPEED_SLOWEST
  | EMUSPEED_SLOWER
  | EMUSPEED_NORMAL
  | EMUSPEED_FASTER
  | EMUSPEED_FASTEST
  | EMUSPEED_other int

definition FCEUD_SetEmulationSpeed :: "platform \<Rightarrow> emuspeed \<Rightarrow> throttle \<Rightarrow> throttle" where
  \<comment> \<open>The \<open>switch\<close> yields \<open>None\<close> where the source returns from \<open>default\<close>.\<close>
  "FCEUD_SetEmulationSpeed e cmd s =
     (let s0 = s\<lparr>MaxSpeed := False\<rparr>;
          switched =
            (case cmd of
               EMUSPEED_SLOWEST \<Rightarrow> Some (s0\<lparr>g_fpsScale := Slowest\<rparr>)
             | EMUSPEED_SLOWER \<Rightarrow> Some (DecreaseEmulationSpeed e s0)
             | EMUSPEED_NORMAL \<Rightarrow> Some (s0\<lparr>g_fpsScale := Normal\<rparr>)
             | EMUSPEED_FASTER \<Rightarrow> Some (IncreaseEmulationSpeed e s0)
             | EMUSPEED_FASTEST \<Rightarrow> Some (s0\<lparr>g_fpsScale := Fastest, MaxSpeed := True\<rparr>)
             | EMUSPEED_other v \<Rightarrow> None)
      in case switched of
           None \<Rightarrow> s0
         | Some s1 \<Rightarrow>
             (let s2 = RefreshThrottleFPS e s1
              in FCEU_DispMessage (g_fpsScale s2 * 100.0) s2))"

subsection \<open>Notions used in the statements\<close>

definition within_bounds :: "throttle \<Rightarrow> bool" where
  \<comment> \<open>The scale factor lies between \<open>Slowest\<close> and \<open>Fastest\<close>.\<close>
  "within_bounds s \<longleftrightarrow> Slowest \<le> g_fpsScale s \<and> g_fpsScale s \<le> Fastest"

definition budget_from_query :: "platform \<Rightarrow> nat \<Rightarrow> real \<Rightarrow> dbl" where
  \<comment> \<open>Lines 37 and 39 on the answer to the \<open>k\<close>-th frame-rate query and the scale
      factor \<open>g\<close>.\<close>
  "budget_from_query e k g =
     dbl_div 1.0 ((real_of_int (sint (fps_at e k)) / 16777216.0) * g)"

fun SpeedThrottle_calls :: "platform \<Rightarrow> nat \<Rightarrow> throttle \<Rightarrow> int list \<times> throttle" where
  \<comment> \<open>\<open>n\<close> consecutive calls of \<open>SpeedThrottle\<close>: their results in order, and the final state.\<close>
  "SpeedThrottle_calls e 0 s = ([], s)"
| "SpeedThrottle_calls e (Suc n) s =
     (let (r, s1) = SpeedThrottle e s;
          (rs, s2) = SpeedThrottle_calls e n s1
      in (r # rs, s2))"

text \<open>
  Concrete platforms and states, for evaluating the functions. \<open>steady60\<close> reports
  60 Hz (\<open>60 * 2^24\<close>) and a clock that advances 20 ms per reading; \<open>negative_rate\<close>
  reports the rate \<open>-1\<close> Hz (\<open>- 2^24\<close>). With \<open>negative_rate\<close> and the scale factor 1.0
  every operation of the budget is exact in binary64 as well. With \<open>steady60\<close> the budgets
  \<open>16/15\<close>, \<open>1/60\<close> and \<open>1/1920\<close> are rounded in binary64; their millisecond counts
  truncate to the same integers.
\<close>

definition steady60 :: platform where
  "steady60 =
     \<lparr>fps_at = (\<lambda>k. 1006632960), ticks_at = (\<lambda>k. 1000 + 20 * of_nat k),
      oor_uint64 = (\<lambda>d. 0)\<rparr>"

definition negative_rate :: platform where
  "negative_rate =
     \<lparr>fps_at = (\<lambda>k. - 16777216), ticks_at = (\<lambda>k. 1000 + 20 * of_nat k),
      oor_uint64 = (\<lambda>d. 0)\<rparr>"

definition slowest_state :: throttle where
  "slowest_state = FCEUD_SetEmulationSpeed steady60 EMUSPEED_SLOWEST initial"

definition normal_state :: throttle where
  "normal_state = FCEUD_SetEmulationSpeed steady60 EMUSPEED_NORMAL initial"

definition fastest_state :: throttle where
  "fastest_state = FCEUD_SetEmulationSpeed steady60 EMUSPEED_FASTEST initial"

section \<open>Auxiliary facts\<close>

lemmas collab_defs =
  FCEUI_GetDesiredFPS_def SDL_GetTicks_def SDL_Delay_def FCEU_DispMessage_def

lemmas convert_defs =
  double_to_uint64_def double_to_int32_def dbl_plus_def dbl_times_def dbl_div_def
  uint64_to_double_def c_trunc_def

subsection \<open>What the refresh and the notification leave alone\<close>

lemma RefreshThrottleFPS_g_fpsScale: "g_fpsScale (RefreshThrottleFPS e s) = g_fpsScale s"
  by (simp add: RefreshThrottleFPS_def collab_defs)

lemma RefreshThrottleFPS_MaxSpeed: "MaxSpeed (RefreshThrottleFPS e s) = MaxSpeed s"
  by (simp add: RefreshThrottleFPS_def collab_defs)

lemma RefreshThrottleFPS_fps_queries:
  "fps_queries (RefreshThrottleFPS e s) = Suc (fps_queries s)"
  by (simp add: RefreshThrottleFPS_def collab_defs)

lemma RefreshThrottleFPS_messages: "messages (RefreshThrottleFPS e s) = messages s"
  by (simp add: RefreshThrottleFPS_def collab_defs)

lemma FCEU_DispMessage_g_fpsScale: "g_fpsScale (FCEU_DispMessage x s) = g_fpsScale s"
  by (simp add: FCEU_DispMessage_def)

lemma FCEU_DispMessage_MaxSpeed: "MaxSpeed (FCEU_DispMessage x s) = MaxSpeed s"
  by (simp add: FCEU_DispMessage_def)

lemma FCEU_DispMessage_fps_queries: "fps_queries (FCEU_DispMessage x s) = fps_queries s"
  by (simp add: FCEU_DispMessage_def)

lemma FCEU_DispMessage_messages: "messages (FCEU_DispMessage x s) = messages s @ [x]"
  by (simp add: FCEU_DispMessage_def)

lemmas frame_simps =
  RefreshThrottleFPS_g_fpsScale RefreshThrottleFPS_MaxSpeed RefreshThrottleFPS_fps_queries
  RefreshThrottleFPS_messages FCEU_DispMessage_g_fpsScale FCEU_DispMessage_MaxSpeed
  FCEU_DispMessage_fps_queries FCEU_DispMessage_messages

subsection \<open>Rounding and powers of two\<close>

lemma round_even_ge: "\<lfloor>q\<rfloor> \<le> round_even q"
  by (simp add: round_even_def Let_def)

lemma round_even_le: "round_even q \<le> \<lfloor>q\<rfloor> + 1"
  by (simp add: round_even_def Let_def)

lemma round_even_of_int: "round_even (of_int n) = n"
  by (simp add: round_even_def Let_def)

lemma round_significand_ge_1:
  assumes "1 \<le> x"
  shows "1 \<le> round_significand x"
proof -
  have "(2::real) ^ 52 \<le> x * 2 ^ 52" using assms by simp
  then have "(2::int) ^ 52 \<le> \<lfloor>x * 2 ^ 52\<rfloor>" by (simp add: le_floor_iff)
  then have "(2::int) ^ 52 \<le> round_even (x * 2 ^ 52)"
    using round_even_ge [of "x * 2 ^ 52"] by linarith
  then have "(2::real) ^ 52 \<le> of_int (round_even (x * 2 ^ 52))"
    by (metis of_int_le_iff of_int_numeral of_int_power)
  then show ?thesis by (simp add: round_significand_def)
qed

lemma round_significand_le_2:
  assumes "x < 2"
  shows "round_significand x \<le> 2"
proof -
  have "x * 2 ^ 52 < 2 ^ 53" using assms by simp
  then have "\<lfloor>x * 2 ^ 52\<rfloor> < (2::int) ^ 53" by (simp add: floor_less_iff)
  then have "round_even (x * 2 ^ 52) \<le> (2::int) ^ 53"
    using round_even_le [of "x * 2 ^ 52"] by linarith
  then have "of_int (round_even (x * 2 ^ 52)) \<le> (2::real) ^ 53"
    by (metis of_int_le_iff of_int_numeral of_int_power)
  then show ?thesis by (simp add: round_significand_def)
qed

lemma round_significand_1: "round_significand 1 = 1"
proof -
  have "round_even (2 ^ 52) = 2 ^ 52"
    using round_even_of_int [of "2 ^ 52"] by simp
  then show ?thesis by (simp add: round_significand_def)
qed

lemma pow2_le_below_2:
  fixes x :: real
  assumes "2 powi k \<le> x" and "x < 2"
  shows "2 powi k \<le> (1::real)"
proof -
  have "k \<le> 0"
  proof (rule ccontr)
    assume "\<not> k \<le> 0"
    then have "1 \<le> k" by simp
    then have "(2::real) powi 1 \<le> 2 powi k" by (intro power_int_increasing) simp_all
    with assms show False by simp
  qed
  then have "(2::real) powi k \<le> 2 powi 0" by (intro power_int_increasing) simp_all
  then show ?thesis by simp
qed

lemma pow2_ge_above_1:
  fixes x :: real
  assumes "x \<le> 2 powi k" and "1 \<le> x"
  shows "k = 0 \<and> x = 1 \<or> 2 \<le> (2::real) powi k"
proof -
  have "0 \<le> k"
  proof (rule ccontr)
    assume "\<not> 0 \<le> k"
    then have "k < 0" by simp
    then have "(2::real) powi k < 2 powi 0" by (intro power_int_strict_increasing) simp_all
    with assms show False by simp
  qed
  show ?thesis
  proof (cases "k = 0")
    case True
    with assms show ?thesis by simp
  next
    case False
    with \<open>0 \<le> k\<close> have "1 \<le> k" by simp
    then have "(2::real) powi 1 \<le> 2 powi k" by (intro power_int_increasing) simp_all
    then show ?thesis by simp
  qed
qed

lemma pow2_pred: "(2::real) powi k = 2 * 2 powi (k - 1)"
  using power_int_minus_mult [of "2::real" k] by simp

lemma pow2_succ: "(2::real) powi (k + 1) = 2 * 2 powi k"
  using power_int_add_1' [of "2::real" k] by simp

lemma fuel_halve:
  fixes x :: real
  assumes "2 \<le> x" and "x < 2 powi (int (Suc n) + 1)"
  shows "2 powi (- int n) \<le> x / 2" and "x / 2 < 2 powi (int n + 1)"
proof -
  have "(2::real) powi (- int n) \<le> 2 powi 0" by (intro power_int_increasing) simp_all
  then show "2 powi (- int n) \<le> x / 2" using assms(1) by simp
  have "(2::real) powi (int (Suc n) + 1) = 2 * 2 powi (int n + 1)"
    using pow2_succ [of "int n + 1"] by (simp add: add.commute add.left_commute)
  then show "x / 2 < 2 powi (int n + 1)" using assms(2) by simp
qed

lemma fuel_double:
  fixes x :: real
  assumes "x < 1" and "2 powi (- int (Suc n)) \<le> x"
  shows "2 powi (- int n) \<le> 2 * x" and "2 * x < 2 powi (int n + 1)"
proof -
  have "- int (Suc n) = - int n - 1" by simp
  then have "(2::real) powi (- int n) = 2 * 2 powi (- int (Suc n))"
    using pow2_pred [of "- int n"] by (simp only:)
  then show "2 powi (- int n) \<le> 2 * x" using assms(2) by simp
  have "(2::real) powi 1 \<le> 2 powi (int n + 1)" by (intro power_int_increasing) simp_all
  then show "2 * x < 2 powi (int n + 1)" using assms(1) by simp
qed

lemma binary64_scaled_ge_pow2:
  "2 powi k \<le> x \<Longrightarrow> 2 powi (- int n) \<le> x \<Longrightarrow> x < 2 powi (int n + 1)
   \<Longrightarrow> 2 powi k \<le> binary64_scaled n x"
proof (induction n arbitrary: x k)
  case 0
  then have "1 \<le> x" "x < 2" by simp_all
  then show ?case
    using pow2_le_below_2 [OF "0.prems"(1)] round_significand_ge_1 [of x] by simp
next
  case (Suc n)
  show ?case
  proof (cases "2 \<le> x")
    case True
    have "2 powi (k - 1) \<le> x / 2" using Suc.prems(1) pow2_pred [of k] by simp
    then have "2 powi (k - 1) \<le> binary64_scaled n (x / 2)"
      using fuel_halve [OF True Suc.prems(3)] by (intro Suc.IH)
    then show ?thesis using True pow2_pred [of k] by simp
  next
    case False
    show ?thesis
    proof (cases "x < 1")
      case True
      have "2 powi (k + 1) \<le> 2 * x" using Suc.prems(1) pow2_succ [of k] by simp
      then have "2 powi (k + 1) \<le> binary64_scaled n (2 * x)"
        using fuel_double [OF True Suc.prems(2)] by (intro Suc.IH)
      then show ?thesis using True False pow2_succ [of k] by simp
    next
      case ge1: False
      then have "1 \<le> x" "x < 2" using False by simp_all
      then show ?thesis
        using pow2_le_below_2 [OF Suc.prems(1)] round_significand_ge_1 [of x] by simp
    qed
  qed
qed

lemma round_significand_le_pow2:
  assumes "x \<le> 2 powi k" and "1 \<le> x" and "x < 2"
  shows "round_significand x \<le> 2 powi k"
  using pow2_ge_above_1 [OF assms(1,2)] round_significand_le_2 [OF assms(3)]
    round_significand_1 by auto

lemma binary64_scaled_le_pow2:
  "x \<le> 2 powi k \<Longrightarrow> 2 powi (- int n) \<le> x \<Longrightarrow> x < 2 powi (int n + 1)
   \<Longrightarrow> binary64_scaled n x \<le> 2 powi k"
proof (induction n arbitrary: x k)
  case 0
  then have "1 \<le> x" "x < 2" by simp_all
  then show ?case
    using round_significand_le_pow2 [OF "0.prems"(1)] by simp
next
  case (Suc n)
  show ?case
  proof (cases "2 \<le> x")
    case True
    have "x / 2 \<le> 2 powi (k - 1)" using Suc.prems(1) pow2_pred [of k] by simp
    then have "binary64_scaled n (x / 2) \<le> 2 powi (k - 1)"
      using fuel_halve [OF True Suc.prems(3)] by (intro Suc.IH)
    then show ?thesis using True pow2_pred [of k] by simp
  next
    case False
    show ?thesis
    proof (cases "x < 1")
      case True
      have "2 * x \<le> 2 powi (k + 1)" using Suc.prems(1) pow2_succ [of k] by simp
      then have "binary64_scaled n (2 * x) \<le> 2 powi (k + 1)"
        using fuel_double [OF True Suc.prems(2)] by (intro Suc.IH)
      then show ?thesis using True False pow2_succ [of k] by simp
    next
      case ge1: False
      then have "1 \<le> x" "x < 2" using False by simp_all
      then show ?thesis
        using round_significand_le_pow2 [OF Suc.prems(1)] by simp
    qed
  qed
qed

lemma binary64_scaled_unfold:
  "binary64_scaled (numeral k) x =
     (if 2 \<le> x then 2 * binary64_scaled (pred_numeral k) (x / 2)
      else if x < 1 then binary64_scaled (pred_numeral k) (2 * x) / 2
      else round_significand x)"
  by (simp add: numeral_eq_Suc)

lemmas binary64_eval =
  binary64_def binary64_scaled_unfold round_significand_def round_even_def Let_def

lemma binary64_ge_pow2:
  assumes "2 powi k \<le> x" and "- 1075 \<le> k" and "x < 2 powi 1076"
  shows "2 powi k \<le> binary64 x"
proof -
  have "(0::real) < 2 powi k" by simp
  then have pos: "0 < x" using assms(1) by linarith
  have "(2::real) powi (- int 1075) \<le> 2 powi k"
    using assms(2) by (intro power_int_increasing) simp_all
  then have lo: "2 powi (- int 1075) \<le> x" using assms(1) by linarith
  have "int 1075 + 1 = 1076" by simp
  then have hi: "x < 2 powi (int 1075 + 1)" using assms(3) by (simp only:)
  have "2 powi k \<le> binary64_scaled 1075 x"
    using assms(1) lo hi by (rule binary64_scaled_ge_pow2)
  then show ?thesis using pos by (simp add: binary64_def)
qed

lemma binary64_le_pow2:
  assumes "x \<le> 2 powi k" and "2 powi (- 1075) \<le> x" and "k \<le> 1075"
  shows "binary64 x \<le> 2 powi k"
proof -
  have "(0::real) < 2 powi (- 1075)" by (rule zero_less_power_int) simp
  then have pos: "0 < x" using assms(2) by linarith
  have "- int 1075 = - 1075" by simp
  then have lo: "2 powi (- int 1075) \<le> x" using assms(2) by (simp only:)
  have "(2::real) powi k < 2 powi (int 1075 + 1)"
    using assms(3) by (intro power_int_strict_increasing) simp_all
  then have hi: "x < 2 powi (int 1075 + 1)" using assms(1) by linarith
  have "binary64_scaled 1075 x \<le> 2 powi k"
    using assms(1) lo hi by (rule binary64_scaled_le_pow2)
  then show ?thesis using pos by (simp add: binary64_def)
qed

lemma LOGMUL_value: "LOGMUL = 5674179970822794 / 2 ^ 52"
  by (simp add: LOGMUL_def binary64_eval)

lemma Slowest_pow2: "Slowest = 2 powi (- 6)"
  by (simp add: Slowest_def)

lemma Fastest_pow2: "Fastest = 2 powi 5"
  by (simp add: Fastest_def)

lemma binary64_ge_Slowest:
  assumes "Slowest \<le> x" and "x < 64"
  shows "Slowest \<le> binary64 x"
proof -
  have "(2::real) powi 6 \<le> 2 powi 1076" by (intro power_int_increasing) simp_all
  then have "x < 2 powi 1076" using assms(2) by simp
  then show ?thesis
    using assms(1) unfolding Slowest_pow2 by (intro binary64_ge_pow2) simp_all
qed

lemma binary64_le_Fastest:
  assumes "x \<le> Fastest" and "1 / 128 \<le> x"
  shows "binary64 x \<le> Fastest"
proof -
  have "(2::real) powi (- 1075) \<le> 2 powi (- 7)" by (intro power_int_increasing) simp_all
  then have "2 powi (- 1075) \<le> x" using assms(2) by simp
  then show ?thesis
    using assms(1) unfolding Fastest_pow2 by (intro binary64_le_pow2) simp_all
qed

subsection \<open>The scale factor after each adjustment\<close>

lemma IncreaseEmulationSpeed_g_fpsScale:
  "g_fpsScale (IncreaseEmulationSpeed e s) = min Fastest (binary64 (g_fpsScale s * LOGMUL))"
  by (simp add: IncreaseEmulationSpeed_def Let_def frame_simps)

lemma DecreaseEmulationSpeed_g_fpsScale:
  "g_fpsScale (DecreaseEmulationSpeed e s) = max Slowest (binary64 (g_fpsScale s / LOGMUL))"
  by (simp add: DecreaseEmulationSpeed_def Let_def frame_simps)

lemma CustomEmulationSpeed_g_fpsScale:
  "1 \<le> p \<Longrightarrow>
   g_fpsScale (snd (CustomEmulationSpeed e p s)) = max Slowest (min Fastest (real_of_int p / 100))"
  by (simp add: CustomEmulationSpeed_def Let_def Slowest_def Fastest_def frame_simps)

lemma CustomEmulationSpeed_rejects: "p < 1 \<Longrightarrow> CustomEmulationSpeed e p s = (- 1, s)"
  by (simp add: CustomEmulationSpeed_def)

lemma CustomEmulationSpeed_status:
  "fst (CustomEmulationSpeed e p s) = (if p < 1 then - 1 else 0)"
  by (simp add: CustomEmulationSpeed_def Let_def)

lemma IncreaseEmulationSpeed_MaxSpeed: "MaxSpeed (IncreaseEmulationSpeed e s) = MaxSpeed s"
  by (simp add: IncreaseEmulationSpeed_def Let_def frame_simps)

lemma DecreaseEmulationSpeed_MaxSpeed: "MaxSpeed (DecreaseEmulationSpeed e s) = MaxSpeed s"
  by (simp add: DecreaseEmulationSpeed_def Let_def frame_simps)

lemma LOGMUL_gt_1: "1 < LOGMUL"
  by (simp add: LOGMUL_value)

lemma LOGMUL_less_2: "LOGMUL < 2"
  by (simp add: LOGMUL_value)

lemma Slowest_le_Fastest: "Slowest \<le> Fastest"
  by (simp add: Slowest_def Fastest_def)

lemma Slowest_pos: "0 < Slowest"
  by (simp add: Slowest_def)

subsection \<open>Bounds are kept\<close>

lemma within_bounds_Increase:
  assumes "within_bounds s"
  shows "within_bounds (IncreaseEmulationSpeed e s)"
proof -
  from assms have lo: "Slowest \<le> g_fpsScale s" and hi: "g_fpsScale s \<le> Fastest"
    by (simp_all add: within_bounds_def)
  have pos: "0 < g_fpsScale s" using lo Slowest_pos by linarith
  then have "g_fpsScale s \<le> g_fpsScale s * LOGMUL" using LOGMUL_gt_1 by simp
  then have below: "Slowest \<le> g_fpsScale s * LOGMUL" using lo by linarith
  have "g_fpsScale s * LOGMUL < g_fpsScale s * 2"
    using pos LOGMUL_less_2 by (intro mult_strict_left_mono)
  then have "g_fpsScale s * LOGMUL < 64" using hi by (simp add: Fastest_def)
  then have "Slowest \<le> binary64 (g_fpsScale s * LOGMUL)"
    using below by (intro binary64_ge_Slowest)
  then show ?thesis
    unfolding within_bounds_def IncreaseEmulationSpeed_g_fpsScale
    using Slowest_le_Fastest by (simp add: min_def)
qed

lemma within_bounds_Decrease:
  assumes "within_bounds s"
  shows "within_bounds (DecreaseEmulationSpeed e s)"
proof -
  from assms have lo: "Slowest \<le> g_fpsScale s" and hi: "g_fpsScale s \<le> Fastest"
    by (simp_all add: within_bounds_def)
  have pos: "0 < g_fpsScale s" using lo Slowest_pos by linarith
  then have "g_fpsScale s / LOGMUL \<le> g_fpsScale s"
    using LOGMUL_gt_1 by (simp add: field_simps)
  then have above: "g_fpsScale s / LOGMUL \<le> Fastest" using hi by linarith
  have "g_fpsScale s / 2 \<le> g_fpsScale s / LOGMUL"
    using pos LOGMUL_gt_1 LOGMUL_less_2 by (intro divide_left_mono) simp_all
  moreover have "1 / 128 \<le> g_fpsScale s / 2" using lo by (simp add: Slowest_def)
  ultimately have "1 / 128 \<le> g_fpsScale s / LOGMUL" by linarith
  then have "binary64 (g_fpsScale s / LOGMUL) \<le> Fastest"
    using above by (intro binary64_le_Fastest)
  then show ?thesis
    unfolding within_bounds_def DecreaseEmulationSpeed_g_fpsScale
    using Slowest_le_Fastest by (simp add: max_def)
qed

lemma within_bounds_Custom:
  "within_bounds s \<Longrightarrow> within_bounds (snd (CustomEmulationSpeed e p s))"
  by (cases "p < 1")
     (simp_all add: CustomEmulationSpeed_rejects CustomEmulationSpeed_g_fpsScale
        within_bounds_def Slowest_def Fastest_def)

lemma within_bounds_refresh_notify:
  "within_bounds s \<Longrightarrow> within_bounds (FCEU_DispMessage x (RefreshThrottleFPS e s))"
  by (simp add: within_bounds_def frame_simps)

lemma within_bounds_SetEmulationSpeed:
  assumes "within_bounds s"
  shows "within_bounds (FCEUD_SetEmulationSpeed e cmd s)"
proof -
  let ?s0 = "s\<lparr>MaxSpeed := False\<rparr>"
  have s0: "within_bounds ?s0" using assms by (simp add: within_bounds_def)
  show ?thesis
  proof (cases cmd)
    case EMUSPEED_SLOWEST
    have "within_bounds (?s0\<lparr>g_fpsScale := Slowest\<rparr>)"
      using Slowest_le_Fastest by (simp add: within_bounds_def)
    then show ?thesis using EMUSPEED_SLOWEST
      by (simp add: FCEUD_SetEmulationSpeed_def Let_def within_bounds_refresh_notify)
  next
    case EMUSPEED_SLOWER
    then show ?thesis using within_bounds_Decrease [OF s0, of e]
      by (simp add: FCEUD_SetEmulationSpeed_def Let_def within_bounds_refresh_notify)
  next
    case EMUSPEED_NORMAL
    have "within_bounds (?s0\<lparr>g_fpsScale := Normal\<rparr>)"
      by (simp add: within_bounds_def Slowest_def Fastest_def Normal_def)
    then show ?thesis using EMUSPEED_NORMAL
      by (simp add: FCEUD_SetEmulationSpeed_def Let_def within_bounds_refresh_notify)
  next
    case EMUSPEED_FASTER
    then show ?thesis using within_bounds_Increase [OF s0, of e]
      by (simp add: FCEUD_SetEmulationSpeed_def Let_def within_bounds_refresh_notify)
  next
    case EMUSPEED_FASTEST
    have "within_bounds (?s0\<lparr>g_fpsScale := Fastest, MaxSpeed := True\<rparr>)"
      using Slowest_le_Fastest by (simp add: within_bounds_def)
    then show ?thesis using EMUSPEED_FASTEST
      by (simp add: FCEUD_SetEmulationSpeed_def Let_def within_bounds_refresh_notify)
  next
    case (EMUSPEED_other v)
    then show ?thesis using s0
      by (simp add: FCEUD_SetEmulationSpeed_def Let_def)
  qed
qed

lemma within_bounds_Increase_repeated:
  "within_bounds s \<Longrightarrow> within_bounds ((IncreaseEmulationSpeed e ^^ n) s)"
  by (induction n) (simp_all add: within_bounds_Increase)

lemma within_bounds_Decrease_repeated:
  "within_bounds s \<Longrightarrow> within_bounds ((DecreaseEmulationSpeed e ^^ n) s)"
  by (induction n) (simp_all add: within_bounds_Decrease)

lemma within_bounds_initial: "within_bounds initial"
  by (simp add: within_bounds_def initial_def Slowest_def Fastest_def Normal_def)

subsection \<open>A throttled call in closed form\<close>

lemma SpeedThrottle_throttled:
  assumes "g_fpsScale s < 32"
  shows "SpeedThrottle e s =
    (let n = (if Lasttime s = 0 then Suc (tick_reads s) else tick_reads s);
         last = (if Lasttime s = 0 then ticks_at e (tick_reads s) else Lasttime s)
     in if 50 < remaining e s
        then (1, s\<lparr>Lasttime := last, Nexttime := deadline e s,
                    InFrame := (if InFrame s = 0 then 1 else InFrame s),
                    tick_reads := Suc n, delays := delays s @ [50]\<rparr>)
        else (0, s\<lparr>Lasttime := ticks_at e (Suc n), Nexttime := deadline e s, InFrame := 0,
                    tick_reads := Suc (Suc n),
                    delays := (if 0 < remaining e s then delays s @ [remaining e s]
                               else delays s)\<rparr>))"
  using assms
  by (cases "Lasttime s = 0"; cases "InFrame s = 0";
      cases "deadline e s \<le> cur_time_of e s"; cases "50 < deadline e s - cur_time_of e s")
     (simp_all add: SpeedThrottle_def Let_def collab_defs split_def deadline_def
        remaining_def cur_time_of_def)

lemma SpeedThrottle_unthrottled: "32 \<le> g_fpsScale s \<Longrightarrow> SpeedThrottle e s = (0, s)"
  by (simp add: SpeedThrottle_def)

lemma SpeedThrottle_calls_unthrottled:
  "32 \<le> g_fpsScale s \<Longrightarrow> SpeedThrottle_calls e n s = (replicate n 0, s)"
  by (induction n) (simp_all add: SpeedThrottle_unthrottled)

lemma SpeedThrottle_status:
  "g_fpsScale s < 32 \<Longrightarrow> fst (SpeedThrottle e s) = (if 50 < remaining e s then 1 else 0)"
  by (simp add: SpeedThrottle_throttled Let_def)

lemma SpeedThrottle_Nexttime:
  "g_fpsScale s < 32 \<Longrightarrow> Nexttime (snd (SpeedThrottle e s)) = deadline e s"
  by (simp add: SpeedThrottle_throttled Let_def)

lemma SpeedThrottle_complete:
  assumes "g_fpsScale s < 32" and "\<not> 50 < remaining e s"
  shows "InFrame (snd (SpeedThrottle e s)) = 0"
    and "Lasttime (snd (SpeedThrottle e s))
           = ticks_at e (tick_reads (snd (SpeedThrottle e s)) - 1)"
  using assms by (simp_all add: SpeedThrottle_throttled Let_def)

lemma SpeedThrottle_pending:
  assumes "g_fpsScale s < 32" and "50 < remaining e s"
  shows "InFrame (snd (SpeedThrottle e s)) \<noteq> 0"
  using assms by (simp add: SpeedThrottle_throttled Let_def)

lemma SpeedThrottle_delays:
  "delays (snd (SpeedThrottle e s)) =
     (if 32 \<le> g_fpsScale s \<or> remaining e s = 0 then delays s
      else if 50 < remaining e s then delays s @ [50]
      else delays s @ [remaining e s])"
proof (cases "32 \<le> g_fpsScale s")
  case True
  then show ?thesis by (simp add: SpeedThrottle_unthrottled)
next
  case False
  then have "g_fpsScale s < 32" by simp
  then show ?thesis
    by (cases "remaining e s = 0") (simp_all add: SpeedThrottle_throttled Let_def word_gt_0)
qed

subsection \<open>The step constant\<close>

lemma LOGMUL_cube_above: "2 < (LOGMUL + 1 / 10 ^ 15) ^ 3"
  by (simp add: LOGMUL_value power3_eq_cube)

lemma LOGMUL_cube_below: "(LOGMUL - 1 / 10 ^ 15) ^ 3 < 2"
  by (simp add: LOGMUL_value power3_eq_cube)

lemma LOGMUL_near_cube_root: "\<bar>LOGMUL - root 3 2\<bar> < 1 / 10 ^ 15"
proof -
  have pos: "0 \<le> LOGMUL - 1 / 10 ^ 15" "0 \<le> LOGMUL + 1 / 10 ^ 15"
    by (simp_all add: LOGMUL_value)
  have "root 3 ((LOGMUL - 1 / 10 ^ 15) ^ 3) < root 3 2"
    using LOGMUL_cube_below by (simp only: real_root_less_iff [of 3] zero_less_numeral)
  then have below: "LOGMUL - 1 / 10 ^ 15 < root 3 2"
    using pos(1) by (simp only: real_root_power_cancel [of 3] zero_less_numeral)
  have "root 3 2 < root 3 ((LOGMUL + 1 / 10 ^ 15) ^ 3)"
    using LOGMUL_cube_above by (simp only: real_root_less_iff [of 3] zero_less_numeral)
  then have above: "root 3 2 < LOGMUL + 1 / 10 ^ 15"
    using pos(2) by (simp only: real_root_power_cancel [of 3] zero_less_numeral)
  have less: "LOGMUL - root 3 2 < 1 / 10 ^ 15" using below by linarith
  have greater: "- (LOGMUL - root 3 2) < 1 / 10 ^ 15" using above by linarith
  show ?thesis unfolding abs_less_iff using less greater by (rule conjI)
qed

lemma step_up_1: "binary64 (1 * LOGMUL) = LOGMUL"
  by (simp add: LOGMUL_value binary64_eval)

lemma step_up_2: "binary64 (LOGMUL * LOGMUL) = 7149018786131514 / 2 ^ 52"
  by (simp add: LOGMUL_value binary64_eval)

lemma step_up_3: "binary64 (7149018786131514 / 2 ^ 52 * LOGMUL) = 9007199254740987 / 2 ^ 52"
  by (simp add: LOGMUL_value binary64_eval)

lemma step_down_1: "binary64 (1 / LOGMUL) = 7149018786131518 / 2 ^ 53"
  by (simp add: LOGMUL_value binary64_eval)

lemma step_down_2: "binary64 (7149018786131518 / 2 ^ 53 / LOGMUL) = 5674179970822797 / 2 ^ 53"
  by (simp add: LOGMUL_value binary64_eval)

lemma step_down_3: "binary64 (5674179970822797 / 2 ^ 53 / LOGMUL) = 4503599627370498 / 2 ^ 53"
  by (simp add: LOGMUL_value binary64_eval)

lemma three_steps_faster:
  "g_fpsScale ((IncreaseEmulationSpeed e ^^ 3) (s\<lparr>g_fpsScale := 1.0\<rparr>)) = 2 - 5 / 2 ^ 52"
proof -
  let ?s0 = "s\<lparr>g_fpsScale := 1.0\<rparr>"
  let ?s1 = "IncreaseEmulationSpeed e ?s0"
  let ?s2 = "IncreaseEmulationSpeed e ?s1"
  let ?s3 = "IncreaseEmulationSpeed e ?s2"
  have "g_fpsScale ?s1 = min Fastest (binary64 (1 * LOGMUL))"
    by (simp add: IncreaseEmulationSpeed_g_fpsScale)
  then have one: "g_fpsScale ?s1 = LOGMUL"
    unfolding step_up_1 by (simp add: LOGMUL_value Fastest_def)
  have "g_fpsScale ?s2 = min Fastest (binary64 (LOGMUL * LOGMUL))"
    unfolding IncreaseEmulationSpeed_g_fpsScale [of e ?s1] one ..
  then have two: "g_fpsScale ?s2 = 7149018786131514 / 2 ^ 52"
    unfolding step_up_2 by (simp add: Fastest_def)
  have "g_fpsScale ?s3 = min Fastest (binary64 (7149018786131514 / 2 ^ 52 * LOGMUL))"
    unfolding IncreaseEmulationSpeed_g_fpsScale [of e ?s2] two ..
  then have "g_fpsScale ?s3 = 2 - 5 / 2 ^ 52"
    unfolding step_up_3 by (simp add: Fastest_def)
  then show ?thesis by (simp add: numeral_3_eq_3)
qed

lemma three_steps_slower:
  "g_fpsScale ((DecreaseEmulationSpeed e ^^ 3) (s\<lparr>g_fpsScale := 1.0\<rparr>)) = 1 / 2 + 1 / 2 ^ 52"
proof -
  let ?s0 = "s\<lparr>g_fpsScale := 1.0\<rparr>"
  let ?s1 = "DecreaseEmulationSpeed e ?s0"
  let ?s2 = "DecreaseEmulationSpeed e ?s1"
  let ?s3 = "DecreaseEmulationSpeed e ?s2"
  have "g_fpsScale ?s1 = max Slowest (binary64 (1 / LOGMUL))"
    by (simp add: DecreaseEmulationSpeed_g_fpsScale)
  then have one: "g_fpsScale ?s1 = 7149018786131518 / 2 ^ 53"
    unfolding step_down_1 by (simp add: Slowest_def)
  have "g_fpsScale ?s2 = max Slowest (binary64 (7149018786131518 / 2 ^ 53 / LOGMUL))"
    unfolding DecreaseEmulationSpeed_g_fpsScale [of e ?s1] one ..
  then have two: "g_fpsScale ?s2 = 5674179970822797 / 2 ^ 53"
    unfolding step_down_2 by (simp add: Slowest_def)
  have "g_fpsScale ?s3 = max Slowest (binary64 (5674179970822797 / 2 ^ 53 / LOGMUL))"
    unfolding DecreaseEmulationSpeed_g_fpsScale [of e ?s2] two ..
  then have "g_fpsScale ?s3 = 1 / 2 + 1 / 2 ^ 52"
    unfolding step_down_3 by (simp add: Slowest_def)
  then show ?thesis by (simp add: numeral_3_eq_3)
qed

lemma RefreshThrottleFPS_budget_from_query:
  "desired_frametime (RefreshThrottleFPS e s)
     = budget_from_query e (fps_queries s) (g_fpsScale (RefreshThrottleFPS e s))"
  by (simp add: RefreshThrottleFPS_def collab_defs budget_from_query_def)

lemma RefreshThrottleFPS_window:
  "Lasttime (RefreshThrottleFPS e s) = 0 \<and> Nexttime (RefreshThrottleFPS e s) = 0
   \<and> InFrame (RefreshThrottleFPS e s) = 0"
  by (simp add: RefreshThrottleFPS_def collab_defs)

lemma notified_refresh:
  "desired_frametime (FCEU_DispMessage x (RefreshThrottleFPS e s))
     = budget_from_query e (fps_queries s)
         (g_fpsScale (FCEU_DispMessage x (RefreshThrottleFPS e s)))
   \<and> Lasttime (FCEU_DispMessage x (RefreshThrottleFPS e s)) = 0
   \<and> Nexttime (FCEU_DispMessage x (RefreshThrottleFPS e s)) = 0
   \<and> InFrame (FCEU_DispMessage x (RefreshThrottleFPS e s)) = 0"
  using RefreshThrottleFPS_budget_from_query [of e s] RefreshThrottleFPS_window [of e s]
  by (simp add: FCEU_DispMessage_def)

lemma IncreaseEmulationSpeed_budget:
  "desired_frametime (IncreaseEmulationSpeed e s)
     = budget_from_query e (fps_queries s) (g_fpsScale (IncreaseEmulationSpeed e s))"
  by (simp add: IncreaseEmulationSpeed_def Let_def RefreshThrottleFPS_def collab_defs
        budget_from_query_def)

lemma DecreaseEmulationSpeed_budget:
  "desired_frametime (DecreaseEmulationSpeed e s)
     = budget_from_query e (fps_queries s) (g_fpsScale (DecreaseEmulationSpeed e s))"
  by (simp add: DecreaseEmulationSpeed_def Let_def RefreshThrottleFPS_def collab_defs
        budget_from_query_def)

subsection \<open>Calls to the collaborators made by the adjusters\<close>

lemma IncreaseEmulationSpeed_fps_queries:
  "fps_queries (IncreaseEmulationSpeed e s) = Suc (fps_queries s)"
  by (simp add: IncreaseEmulationSpeed_def Let_def frame_simps)

lemma DecreaseEmulationSpeed_fps_queries:
  "fps_queries (DecreaseEmulationSpeed e s) = Suc (fps_queries s)"
  by (simp add: DecreaseEmulationSpeed_def Let_def frame_simps)

lemma IncreaseEmulationSpeed_messages:
  "messages (IncreaseEmulationSpeed e s)
     = messages s @ [g_fpsScale (IncreaseEmulationSpeed e s) * 100]"
  by (simp add: IncreaseEmulationSpeed_def Let_def frame_simps)

lemma DecreaseEmulationSpeed_messages:
  "messages (DecreaseEmulationSpeed e s)
     = messages s @ [g_fpsScale (DecreaseEmulationSpeed e s) * 100]"
  by (simp add: DecreaseEmulationSpeed_def Let_def frame_simps)

lemma SetEmulationSpeed_FASTER:
  "FCEUD_SetEmulationSpeed e EMUSPEED_FASTER s =
     FCEU_DispMessage (g_fpsScale (IncreaseEmulationSpeed e (s\<lparr>MaxSpeed := False\<rparr>)) * 100)
       (RefreshThrottleFPS e (IncreaseEmulationSpeed e (s\<lparr>MaxSpeed := False\<rparr>)))"
  by (simp add: FCEUD_SetEmulationSpeed_def Let_def frame_simps)

lemma SetEmulationSpeed_SLOWER:
  "FCEUD_SetEmulationSpeed e EMUSPEED_SLOWER s =
     FCEU_DispMessage (g_fpsScale (DecreaseEmulationSpeed e (s\<lparr>MaxSpeed := False\<rparr>)) * 100)
       (RefreshThrottleFPS e (DecreaseEmulationSpeed e (s\<lparr>MaxSpeed := False\<rparr>)))"
  by (simp add: FCEUD_SetEmulationSpeed_def Let_def frame_simps)

subsection \<open>The example states, evaluated\<close>

lemma slowest_state_eq:
  "slowest_state =
     \<lparr>Lasttime = 0, Nexttime = 0, desired_frametime = Finite (16 / 15), InFrame = 0,
      g_fpsScale = 1 / 64, MaxSpeed = False, fps_queries = 1, tick_reads = 0, delays = [],
      messages = [25 / 16]\<rparr>"
  by (simp add: slowest_state_def FCEUD_SetEmulationSpeed_def RefreshThrottleFPS_def
        collab_defs Let_def initial_def steady60_def Slowest_def dbl_div_def)

lemma normal_state_eq:
  "normal_state =
     \<lparr>Lasttime = 0, Nexttime = 0, desired_frametime = Finite (1 / 60), InFrame = 0,
      g_fpsScale = 1, MaxSpeed = False, fps_queries = 1, tick_reads = 0, delays = [],
      messages = [100]\<rparr>"
  by (simp add: normal_state_def FCEUD_SetEmulationSpeed_def RefreshThrottleFPS_def
        collab_defs Let_def initial_def steady60_def Normal_def dbl_div_def)

lemma fastest_state_eq:
  "fastest_state =
     \<lparr>Lasttime = 0, Nexttime = 0, desired_frametime = Finite (1 / 1920), InFrame = 0,
      g_fpsScale = 32, MaxSpeed = True, fps_queries = 1, tick_reads = 0, delays = [],
      messages = [3200]\<rparr>"
  by (simp add: fastest_state_def FCEUD_SetEmulationSpeed_def RefreshThrottleFPS_def
        collab_defs Let_def initial_def steady60_def Fastest_def dbl_div_def)

lemma remaining_slowest_state: "remaining steady60 slowest_state = 1046"
  by (simp add: slowest_state_eq remaining_def deadline_def cur_time_of_def steady60_def
        convert_defs)

lemma remaining_normal_state: "remaining steady60 normal_state = 0"
  by (simp add: normal_state_eq remaining_def deadline_def cur_time_of_def steady60_def
        convert_defs)

lemma RefreshThrottleFPS_budget:
  "desired_frametime (RefreshThrottleFPS e s) =
     dbl_div 1.0 (real_of_int (sint (fps_at e (fps_queries s))) / 16777216.0 * g_fpsScale s)"
  by (simp add: RefreshThrottleFPS_def collab_defs)

lemma RefreshThrottleFPS_positive_budget:
  assumes "0 < sint (fps_at e (fps_queries s))" and "0 < g_fpsScale s"
  shows "\<exists>x. desired_frametime (RefreshThrottleFPS e s) = Finite x \<and> 0 < x"
proof -
  define d where "d = real_of_int (sint (fps_at e (fps_queries s))) / 16777216.0 * g_fpsScale s"
  have "0 < real_of_int (sint (fps_at e (fps_queries s)))"
    using assms(1) by (simp only: of_int_0_less_iff)
  then have "0 < d"
    unfolding d_def using assms(2) by (intro mult_pos_pos divide_pos_pos) simp_all
  then have "dbl_div 1.0 d = Finite (1 / d) \<and> 0 < 1 / d"
    by (simp add: dbl_div_def)
  then show ?thesis
    unfolding RefreshThrottleFPS_budget d_def [symmetric] by blast
qed

section \<open>The claims\<close>

subsection \<open>RefreshThrottleFPS\<close>

text \<open>
  C1. The claim: \<open>RefreshThrottleFPS\<close> never leaves a frame budget that is zero or
  negative, because a computed budget \<open>\<le> 0\<close> is clamped through the integer millisecond
  value to a minimum of 1. The code does not do this. With the rate \<open>- 2^24\<close> (\<open>-1\<close> Hz)
  and the scale factor 1.0 the budget is \<open>1.0 / (-1.0 * 1.0) = -1.0\<close> seconds; the local
  \<open>T\<close> is \<open>-1000\<close> and is replaced by 1, but \<open>T\<close> is never written back, so
  \<open>desired_frametime\<close> stays \<open>-1.0\<close>. With 60 Hz and the scale factor 32 the millisecond
  value is \<open>\<lfloor>0.52\<rfloor> = 0\<close>, which the test \<open>T < 0\<close> lets through: the minimum of 1 is not
  enforced either.
\<close>

theorem RefreshThrottleFPS_budget_not_clamped:
  "desired_frametime (RefreshThrottleFPS negative_rate initial) = Finite (- 1)
   \<and> RefreshThrottleFPS_T negative_rate initial = Some 1
   \<and> desired_frametime (RefreshThrottleFPS steady60 fastest_state) = Finite (1 / 1920)
   \<and> RefreshThrottleFPS_T steady60 fastest_state = Some 0"
proof -
  have "desired_frametime (RefreshThrottleFPS negative_rate initial) = Finite (- 1)"
    by (simp add: RefreshThrottleFPS_def collab_defs negative_rate_def initial_def
          Normal_def dbl_div_def)
  moreover have "RefreshThrottleFPS_T negative_rate initial = Some 1"
    by (simp add: RefreshThrottleFPS_T_def collab_defs negative_rate_def initial_def
          Normal_def convert_defs)
  moreover have "desired_frametime (RefreshThrottleFPS steady60 fastest_state)
                   = Finite (1 / 1920)"
    by (simp add: fastest_state_eq RefreshThrottleFPS_def collab_defs steady60_def dbl_div_def)
  moreover have "RefreshThrottleFPS_T steady60 fastest_state = Some 0"
    by (simp add: fastest_state_eq RefreshThrottleFPS_T_def collab_defs steady60_def
          convert_defs)
  ultimately show ?thesis by blast
qed

text \<open>
  C9. For every fixed-point rate and every scale factor, \<open>RefreshThrottleFPS\<close> sets the
  budget to \<open>1.0 / ((fps_raw / 16777216.0) * ScaleFactor)\<close> and clears the whole pacing
  window: window start, deadline and the in-progress flag are zero afterwards. It has no
  error result. The scale factor and the \<open>MaxSpeed\<close> flag are not touched, and the next
  throttled call measures afresh: its deadline is its own first clock reading plus the
  new budget.
\<close>

theorem RefreshThrottleFPS_budget_and_reset:
  "desired_frametime (RefreshThrottleFPS e s)
     = dbl_div 1.0 ((real_of_int (sint (fps_at e (fps_queries s))) / 16777216.0) * g_fpsScale s)
   \<and> Lasttime (RefreshThrottleFPS e s) = 0
   \<and> Nexttime (RefreshThrottleFPS e s) = 0
   \<and> InFrame (RefreshThrottleFPS e s) = 0
   \<and> g_fpsScale (RefreshThrottleFPS e s) = g_fpsScale s
   \<and> MaxSpeed (RefreshThrottleFPS e s) = MaxSpeed s
   \<and> deadline e (RefreshThrottleFPS e s)
       = double_to_uint64 (oor_uint64 e)
           (dbl_plus (uint64_to_double (ticks_at e (tick_reads s)))
              (dbl_times (desired_frametime (RefreshThrottleFPS e s)) 1000))"
  by (simp add: RefreshThrottleFPS_def collab_defs deadline_def)

subsection \<open>SpeedThrottle\<close>

text \<open>
  C5. Once the scale factor has reached 32, every call of \<open>SpeedThrottle\<close> returns 0
  (the wait is complete) and changes nothing: it neither reads the clock nor sleeps, and
  \<open>Lasttime\<close>, \<open>Nexttime\<close> and \<open>InFrame\<close> keep their values. The same holds for any number
  of consecutive calls.
\<close>

theorem SpeedThrottle_fast_path:
  assumes "32 \<le> g_fpsScale s"
  shows "SpeedThrottle e s = (0, s) \<and> SpeedThrottle_calls e n s = (replicate n 0, s)"
  using assms by (simp add: SpeedThrottle_unthrottled SpeedThrottle_calls_unthrottled)

theorem SpeedThrottle_fast_path_witness:
  "32 \<le> g_fpsScale fastest_state
   \<and> SpeedThrottle steady60 fastest_state = (0, fastest_state)
   \<and> SpeedThrottle_calls steady60 3 fastest_state = ([0, 0, 0], fastest_state)"
proof -
  have h: "32 \<le> g_fpsScale fastest_state" by (simp add: fastest_state_eq)
  show ?thesis
    using h SpeedThrottle_fast_path [OF h, of steady60 3] by (simp add: numeral_3_eq_3)
qed

text \<open>
  C6. Whatever the state and the clock readings, one call of \<open>SpeedThrottle\<close> hands at
  most one duration to \<open>SDL_Delay\<close>, and that duration is positive and at most 50 ms.
\<close>

theorem SpeedThrottle_sleeps_at_most_50:
  "delays (snd (SpeedThrottle e s)) = delays s
   \<or> (\<exists>ms. delays (snd (SpeedThrottle e s)) = delays s @ [ms] \<and> 0 < ms \<and> ms \<le> 50)"
proof (cases "32 \<le> g_fpsScale s \<or> remaining e s = 0")
  case True
  then show ?thesis by (simp add: SpeedThrottle_delays)
next
  case False
  show ?thesis
  proof (cases "50 < remaining e s")
    case True
    with False have "delays (snd (SpeedThrottle e s)) = delays s @ [50]"
      by (simp add: SpeedThrottle_delays)
    then show ?thesis by simp
  next
    case over: False
    with False have "delays (snd (SpeedThrottle e s)) = delays s @ [remaining e s]"
      by (simp add: SpeedThrottle_delays)
    moreover have "0 < remaining e s" using False by (simp add: word_gt_0)
    moreover have "remaining e s \<le> 50" using over by (simp add: not_less)
    ultimately show ?thesis by blast
  qed
qed

text \<open>
  C7. A throttled call (scale factor below 32) compares the clock with the deadline
  \<open>deadline e s\<close>; \<open>remaining e s\<close> is the time left before the cap. The call returns 0
  exactly when that time is at most 50 ms, and then the window is no longer in progress
  and \<open>Lasttime\<close> is the clock reading taken last, after the sleep. It returns 1 exactly
  when more than 50 ms were left, and then the window is still in progress.
\<close>

theorem SpeedThrottle_complete_iff_within_50:
  assumes "g_fpsScale s < 32"
  shows "Nexttime (snd (SpeedThrottle e s)) = deadline e s
   \<and> (fst (SpeedThrottle e s) = 0 \<longleftrightarrow> remaining e s \<le> 50)
   \<and> (fst (SpeedThrottle e s) = 1 \<longleftrightarrow> 50 < remaining e s)
   \<and> (remaining e s \<le> 50 \<longrightarrow>
         InFrame (snd (SpeedThrottle e s)) = 0
         \<and> Lasttime (snd (SpeedThrottle e s))
             = ticks_at e (tick_reads (snd (SpeedThrottle e s)) - 1))
   \<and> (50 < remaining e s \<longrightarrow> InFrame (snd (SpeedThrottle e s)) \<noteq> 0)"
proof (cases "50 < remaining e s")
  case True
  then have "\<not> remaining e s \<le> 50" by (simp add: not_le)
  with True show ?thesis
    using SpeedThrottle_status [OF assms, of e] SpeedThrottle_Nexttime [OF assms, of e]
      SpeedThrottle_pending [OF assms True]
    by simp
next
  case False
  then have "remaining e s \<le> 50" by (simp add: not_less)
  with False show ?thesis
    using SpeedThrottle_status [OF assms, of e] SpeedThrottle_Nexttime [OF assms, of e]
      SpeedThrottle_complete [OF assms False]
    by simp
qed

theorem SpeedThrottle_complete_iff_within_50_witness:
  "g_fpsScale slowest_state < 32
   \<and> 50 < remaining steady60 slowest_state
   \<and> fst (SpeedThrottle steady60 slowest_state) = 1
   \<and> InFrame (snd (SpeedThrottle steady60 slowest_state)) \<noteq> 0
   \<and> g_fpsScale normal_state < 32
   \<and> remaining steady60 normal_state \<le> 50
   \<and> fst (SpeedThrottle steady60 normal_state) = 0
   \<and> InFrame (snd (SpeedThrottle steady60 normal_state)) = 0"
proof -
  have slow: "g_fpsScale slowest_state < 32" by (simp add: slowest_state_eq)
  have norm: "g_fpsScale normal_state < 32" by (simp add: normal_state_eq)
  show ?thesis
    using slow norm
      SpeedThrottle_complete_iff_within_50 [OF slow, of steady60]
      SpeedThrottle_complete_iff_within_50 [OF norm, of steady60]
    by (simp add: remaining_slowest_state remaining_normal_state)
qed

subsection \<open>The adjusters\<close>

text \<open>
  C2. If the scale factor is within \<open>[Slowest, Fastest] = [1/64, 32]\<close>, it is still there
  after \<open>IncreaseEmulationSpeed\<close>, after \<open>DecreaseEmulationSpeed\<close>, after
  \<open>CustomEmulationSpeed\<close> with any percentage, after \<open>FCEUD_SetEmulationSpeed\<close> with any
  command, and after any number of repeated steps up or down.
\<close>

theorem adjusters_keep_scale_within_bounds:
  assumes "within_bounds s"
  shows "within_bounds (IncreaseEmulationSpeed e s)
       \<and> within_bounds (DecreaseEmulationSpeed e s)
       \<and> within_bounds (snd (CustomEmulationSpeed e p s))
       \<and> within_bounds (FCEUD_SetEmulationSpeed e cmd s)
       \<and> within_bounds ((IncreaseEmulationSpeed e ^^ n) s)
       \<and> within_bounds ((DecreaseEmulationSpeed e ^^ n) s)"
  using assms
  by (simp add: within_bounds_Increase within_bounds_Decrease within_bounds_Custom
        within_bounds_SetEmulationSpeed within_bounds_Increase_repeated
        within_bounds_Decrease_repeated)

theorem adjusters_keep_scale_within_bounds_witness:
  "within_bounds initial
   \<and> within_bounds ((IncreaseEmulationSpeed steady60 ^^ 20) initial)
   \<and> within_bounds ((DecreaseEmulationSpeed steady60 ^^ 20) initial)
   \<and> within_bounds (snd (CustomEmulationSpeed steady60 10000 initial))
   \<and> within_bounds (FCEUD_SetEmulationSpeed steady60 EMUSPEED_FASTER initial)"
  using adjusters_keep_scale_within_bounds
          [OF within_bounds_initial, of steady60 10000 EMUSPEED_FASTER 20]
        within_bounds_initial
  by blast

text \<open>
  C3, as the spec states it: a command outside the five presets leaves all speed state
  unchanged, the \<open>MaxSpeed\<close> flag included. The code clears the flag before it looks at
  the command: after the preset \<open>FASTEST\<close> the flag is set, and an unrecognised command
  (here the value 5) then clears it.
\<close>

theorem SetEmulationSpeed_other_clears_MaxSpeed:
  "MaxSpeed fastest_state
   \<and> \<not> MaxSpeed (FCEUD_SetEmulationSpeed steady60 (EMUSPEED_other 5) fastest_state)"
  by (simp add: fastest_state_eq FCEUD_SetEmulationSpeed_def Let_def)

text \<open>
  C3, amended. A command outside the five presets does no clamping, no recalculation and
  no notification, and leaves the scale factor and the pacing window as they were; its
  only effect is that the \<open>MaxSpeed\<close> flag is cleared. For every command, recognised or
  not, the flag is true afterwards exactly when the command is \<open>FASTEST\<close>.
\<close>

theorem SetEmulationSpeed_other_and_MaxSpeed:
  "FCEUD_SetEmulationSpeed e (EMUSPEED_other v) s = s\<lparr>MaxSpeed := False\<rparr>
   \<and> MaxSpeed (FCEUD_SetEmulationSpeed e cmd s) = (cmd = EMUSPEED_FASTEST)"
  by (cases cmd)
     (simp_all add: FCEUD_SetEmulationSpeed_def Let_def frame_simps
        IncreaseEmulationSpeed_MaxSpeed DecreaseEmulationSpeed_MaxSpeed)

text \<open>
  C4. \<open>CustomEmulationSpeed\<close> returns \<open>-1\<close> exactly when the percentage is below 1, and
  then the state is unchanged. For every percentage \<open>p \<ge> 1\<close> it returns 0 and the scale
  factor is \<open>p / 100\<close> clamped to \<open>[Slowest, Fastest]\<close>; 50 gives exactly 0.5 and 10000
  gives 32.
\<close>

theorem CustomEmulationSpeed_result:
  "(fst (CustomEmulationSpeed e p s) = - 1 \<longleftrightarrow> p < 1)
   \<and> (p < 1 \<longrightarrow> CustomEmulationSpeed e p s = (- 1, s))
   \<and> (1 \<le> p \<longrightarrow>
         fst (CustomEmulationSpeed e p s) = 0
         \<and> g_fpsScale (snd (CustomEmulationSpeed e p s))
             = max Slowest (min Fastest (real_of_int p / 100.0)))
   \<and> g_fpsScale (snd (CustomEmulationSpeed e 50 s)) = 0.5
   \<and> g_fpsScale (snd (CustomEmulationSpeed e 10000 s)) = 32.0"
proof -
  have "g_fpsScale (snd (CustomEmulationSpeed e 50 s)) = 0.5"
    by (simp add: CustomEmulationSpeed_g_fpsScale Slowest_def Fastest_def)
  moreover have "g_fpsScale (snd (CustomEmulationSpeed e 10000 s)) = 32.0"
    by (simp add: CustomEmulationSpeed_g_fpsScale Slowest_def Fastest_def)
  ultimately show ?thesis
    by (simp add: CustomEmulationSpeed_status CustomEmulationSpeed_rejects
          CustomEmulationSpeed_g_fpsScale)
qed

theorem CustomEmulationSpeed_result_witness:
  "(0::int) < 1 \<and> CustomEmulationSpeed steady60 0 initial = (- 1, initial)
   \<and> (1::int) \<le> 200 \<and> fst (CustomEmulationSpeed steady60 200 initial) = 0
   \<and> g_fpsScale (snd (CustomEmulationSpeed steady60 200 initial)) = 2"
  using CustomEmulationSpeed_result [of steady60 0 initial]
        CustomEmulationSpeed_result [of steady60 200 initial]
  by (simp add: Slowest_def Fastest_def)

text \<open>
  C8. \<open>IncreaseEmulationSpeed\<close> multiplies the scale factor by \<open>LOGMUL\<close>, the product
  rounded to binary64, and clamps it to \<open>Fastest\<close>; \<open>DecreaseEmulationSpeed\<close> divides by
  \<open>LOGMUL\<close> in the same way and clamps to \<open>Slowest\<close>. \<open>LOGMUL\<close> is the cube root of 2 to
  within \<open>10^-15\<close>. Three steps up from 1.0 arrive at \<open>2 - 5 * 2^-52\<close> and three steps
  down at \<open>1/2 + 2^-52\<close>: approximately 2.0 and 0.5, each within \<open>2 * 10^-15\<close>.
\<close>

theorem LOGMUL_three_steps_double:
  "g_fpsScale (IncreaseEmulationSpeed e s) = min Fastest (binary64 (g_fpsScale s * LOGMUL))
   \<and> g_fpsScale (DecreaseEmulationSpeed e s) = max Slowest (binary64 (g_fpsScale s / LOGMUL))
   \<and> \<bar>LOGMUL - root 3 2\<bar> < 1 / 10 ^ 15
   \<and> g_fpsScale ((IncreaseEmulationSpeed e ^^ 3) (s\<lparr>g_fpsScale := 1.0\<rparr>)) = 2 - 5 / 2 ^ 52
   \<and> \<bar>g_fpsScale ((IncreaseEmulationSpeed e ^^ 3) (s\<lparr>g_fpsScale := 1.0\<rparr>)) - 2.0\<bar>
        < 2 / 10 ^ 15
   \<and> g_fpsScale ((DecreaseEmulationSpeed e ^^ 3) (s\<lparr>g_fpsScale := 1.0\<rparr>)) = 1 / 2 + 1 / 2 ^ 52
   \<and> \<bar>g_fpsScale ((DecreaseEmulationSpeed e ^^ 3) (s\<lparr>g_fpsScale := 1.0\<rparr>)) - 0.5\<bar>
        < 2 / 10 ^ 15"
proof -
  have up: "\<bar>(2 - 5 / 2 ^ 52) - 2.0\<bar> < (2::real) / 10 ^ 15" by simp
  have down: "\<bar>(1 / 2 + 1 / 2 ^ 52) - 0.5\<bar> < (2::real) / 10 ^ 15" by simp
  show ?thesis
    unfolding three_steps_faster three_steps_slower
    using up down LOGMUL_near_cube_root
      IncreaseEmulationSpeed_g_fpsScale [of e s] DecreaseEmulationSpeed_g_fpsScale [of e s]
    by (intro conjI) simp_all
qed

text \<open>
  C10. \<open>FCEUD_SetEmulationSpeed\<close> with \<open>SLOWER\<close> or \<open>FASTER\<close> recalculates the budget
  twice and emits the notification twice. The step it delegates to (\<open>s1\<close> below) asks for
  the frame rate, sets the budget from that answer and notifies; after the \<open>switch\<close> the
  rate is asked for again, the budget is set from the second answer, the pacing window is
  cleared and the same value is notified once more. With \<open>SLOWEST\<close>, \<open>NORMAL\<close> or
  \<open>FASTEST\<close> there is one query, one budget from it, one notification.
\<close>

theorem SetEmulationSpeed_steps_refresh_twice:
  "(let s1 = DecreaseEmulationSpeed e (s\<lparr>MaxSpeed := False\<rparr>);
        s' = FCEUD_SetEmulationSpeed e EMUSPEED_SLOWER s in
      fps_queries s1 = fps_queries s + 1
      \<and> desired_frametime s1 = budget_from_query e (fps_queries s) (g_fpsScale s1)
      \<and> messages s1 = messages s @ [g_fpsScale s1 * 100.0]
      \<and> s' = FCEU_DispMessage (g_fpsScale s1 * 100.0) (RefreshThrottleFPS e s1)
      \<and> fps_queries s' = fps_queries s + 2
      \<and> desired_frametime s' = budget_from_query e (fps_queries s + 1) (g_fpsScale s')
      \<and> Lasttime s' = 0 \<and> Nexttime s' = 0 \<and> InFrame s' = 0
      \<and> messages s' = messages s @ [g_fpsScale s' * 100.0, g_fpsScale s' * 100.0])
   \<and> (let s1 = IncreaseEmulationSpeed e (s\<lparr>MaxSpeed := False\<rparr>);
        s' = FCEUD_SetEmulationSpeed e EMUSPEED_FASTER s in
      fps_queries s1 = fps_queries s + 1
      \<and> desired_frametime s1 = budget_from_query e (fps_queries s) (g_fpsScale s1)
      \<and> messages s1 = messages s @ [g_fpsScale s1 * 100.0]
      \<and> s' = FCEU_DispMessage (g_fpsScale s1 * 100.0) (RefreshThrottleFPS e s1)
      \<and> fps_queries s' = fps_queries s + 2
      \<and> desired_frametime s' = budget_from_query e (fps_queries s + 1) (g_fpsScale s')
      \<and> Lasttime s' = 0 \<and> Nexttime s' = 0 \<and> InFrame s' = 0
      \<and> messages s' = messages s @ [g_fpsScale s' * 100.0, g_fpsScale s' * 100.0])
   \<and> (let s' = FCEUD_SetEmulationSpeed e EMUSPEED_SLOWEST s in
      fps_queries s' = fps_queries s + 1
      \<and> desired_frametime s' = budget_from_query e (fps_queries s) (g_fpsScale s')
      \<and> Lasttime s' = 0 \<and> Nexttime s' = 0 \<and> InFrame s' = 0
      \<and> messages s' = messages s @ [g_fpsScale s' * 100.0])
   \<and> (let s' = FCEUD_SetEmulationSpeed e EMUSPEED_NORMAL s in
      fps_queries s' = fps_queries s + 1
      \<and> desired_frametime s' = budget_from_query e (fps_queries s) (g_fpsScale s')
      \<and> Lasttime s' = 0 \<and> Nexttime s' = 0 \<and> InFrame s' = 0
      \<and> messages s' = messages s @ [g_fpsScale s' * 100.0])
   \<and> (let s' = FCEUD_SetEmulationSpeed e EMUSPEED_FASTEST s in
      fps_queries s' = fps_queries s + 1
      \<and> desired_frametime s' = budget_from_query e (fps_queries s) (g_fpsScale s')
      \<and> Lasttime s' = 0 \<and> Nexttime s' = 0 \<and> InFrame s' = 0
      \<and> messages s' = messages s @ [g_fpsScale s' * 100.0])"
proof -
  let ?s0 = "s\<lparr>MaxSpeed := False\<rparr>"
  have slower:
    "let s1 = DecreaseEmulationSpeed e ?s0;
         s' = FCEUD_SetEmulationSpeed e EMUSPEED_SLOWER s in
      fps_queries s1 = fps_queries s + 1
      \<and> desired_frametime s1 = budget_from_query e (fps_queries s) (g_fpsScale s1)
      \<and> messages s1 = messages s @ [g_fpsScale s1 * 100.0]
      \<and> s' = FCEU_DispMessage (g_fpsScale s1 * 100.0) (RefreshThrottleFPS e s1)
      \<and> fps_queries s' = fps_queries s + 2
      \<and> desired_frametime s' = budget_from_query e (fps_queries s + 1) (g_fpsScale s')
      \<and> Lasttime s' = 0 \<and> Nexttime s' = 0 \<and> InFrame s' = 0
      \<and> messages s' = messages s @ [g_fpsScale s' * 100.0, g_fpsScale s' * 100.0]"
    unfolding Let_def SetEmulationSpeed_SLOWER
    using notified_refresh [of "g_fpsScale (DecreaseEmulationSpeed e ?s0) * 100" e
            "DecreaseEmulationSpeed e ?s0"]
      DecreaseEmulationSpeed_budget [of e ?s0] DecreaseEmulationSpeed_messages [of e ?s0]
    by (simp add: frame_simps DecreaseEmulationSpeed_fps_queries)
  have faster:
    "let s1 = IncreaseEmulationSpeed e ?s0;
         s' = FCEUD_SetEmulationSpeed e EMUSPEED_FASTER s in
      fps_queries s1 = fps_queries s + 1
      \<and> desired_frametime s1 = budget_from_query e (fps_queries s) (g_fpsScale s1)
      \<and> messages s1 = messages s @ [g_fpsScale s1 * 100.0]
      \<and> s' = FCEU_DispMessage (g_fpsScale s1 * 100.0) (RefreshThrottleFPS e s1)
      \<and> fps_queries s' = fps_queries s + 2
      \<and> desired_frametime s' = budget_from_query e (fps_queries s + 1) (g_fpsScale s')
      \<and> Lasttime s' = 0 \<and> Nexttime s' = 0 \<and> InFrame s' = 0
      \<and> messages s' = messages s @ [g_fpsScale s' * 100.0, g_fpsScale s' * 100.0]"
    unfolding Let_def SetEmulationSpeed_FASTER
    using notified_refresh [of "g_fpsScale (IncreaseEmulationSpeed e ?s0) * 100" e
            "IncreaseEmulationSpeed e ?s0"]
      IncreaseEmulationSpeed_budget [of e ?s0] IncreaseEmulationSpeed_messages [of e ?s0]
    by (simp add: frame_simps IncreaseEmulationSpeed_fps_queries)
  have direct:
    "let s' = FCEUD_SetEmulationSpeed e EMUSPEED_SLOWEST s in
      fps_queries s' = fps_queries s + 1
      \<and> desired_frametime s' = budget_from_query e (fps_queries s) (g_fpsScale s')
      \<and> Lasttime s' = 0 \<and> Nexttime s' = 0 \<and> InFrame s' = 0
      \<and> messages s' = messages s @ [g_fpsScale s' * 100.0]"
    "let s' = FCEUD_SetEmulationSpeed e EMUSPEED_NORMAL s in
      fps_queries s' = fps_queries s + 1
      \<and> desired_frametime s' = budget_from_query e (fps_queries s) (g_fpsScale s')
      \<and> Lasttime s' = 0 \<and> Nexttime s' = 0 \<and> InFrame s' = 0
      \<and> messages s' = messages s @ [g_fpsScale s' * 100.0]"
    "let s' = FCEUD_SetEmulationSpeed e EMUSPEED_FASTEST s in
      fps_queries s' = fps_queries s + 1
      \<and> desired_frametime s' = budget_from_query e (fps_queries s) (g_fpsScale s')
      \<and> Lasttime s' = 0 \<and> Nexttime s' = 0 \<and> InFrame s' = 0
      \<and> messages s' = messages s @ [g_fpsScale s' * 100.0]"
    by (simp_all add: FCEUD_SetEmulationSpeed_def Let_def RefreshThrottleFPS_def collab_defs
          budget_from_query_def)
  show ?thesis
    using slower faster direct by (intro conjI)
qed

end
